theory Spec2Isabelle
  imports Complex_Main "HOL-Library.AList"
begin

section \<open>Skin weights export and import: the data model\<close>

text \<open>
  A shallow embedding of \<^verbatim>\<open>Skin_Weights_Addon/skin_weights_operator.py\<close>.

  Python floats are modelled by \<^typ>\<open>real\<close>: rounding, overflow, infinities and NaN are
  outside the model. The host's objects (a Blender mesh object, its vertices, loops, UV
  layer and vertex groups) are records holding what the code reads from them. Exceptions
  are values of \<open>py_error\<close>; a function that can raise returns a sum, with \<open>Inl\<close> the
  exception.
\<close>

datatype py_error = IndexError | KeyError | ValueError | TypeError | OSError

text \<open>A mesh vertex: \<^verbatim>\<open>vert.index\<close> and \<^verbatim>\<open>vert.co\<close> (a 3D vector).\<close>

record vertex =
  vert_index :: nat
  vert_co :: "real \<times> real \<times> real"

text \<open>A face corner: \<^verbatim>\<open>loop.index\<close> and \<^verbatim>\<open>loop.vertex_index\<close>.\<close>

record loop =
  loop_index :: nat
  loop_vertex_index :: nat

text \<open>
  The mesh data: \<^verbatim>\<open>obj.data.vertices\<close>, \<^verbatim>\<open>obj.data.loops\<close> and
  \<^verbatim>\<open>obj.data.uv_layers.active\<close>, which is \<open>None\<close> or the layer's array of 2D vectors
  (\<^verbatim>\<open>uv_layer.data[k].uv\<close>).
\<close>

record mesh =
  vertices :: "vertex list"
  loops :: "loop list"
  uv_layers_active :: "(real \<times> real) list option"

text \<open>
  A vertex group: its name and its weights. \<^verbatim>\<open>group.weight(i)\<close> raises
  \<open>RuntimeError\<close> for a vertex that is not in the group: that is \<open>None\<close> here.
\<close>

record vertex_group =
  group_name :: string
  group_weight :: "nat \<rightharpoonup> real"

record object =
  obj_type :: string
  obj_data :: mesh
  vertex_groups :: "vertex_group list"

text \<open>
  One record of the dataset, as \<^verbatim>\<open>json.load\<close> gives it: a dict whose keys \<open>co\<close>,
  \<open>uv\<close> and \<open>weights\<close> may each be missing. The values have the JSON types of the file
  format (arrays of numbers, an object of numbers); a dict is an association list in
  insertion order. The loaded document is a dict whose key \<open>vertices\<close> may be missing.
\<close>

record vrecord =
  rec_co :: "real list option"
  rec_uv :: "real list option"
  rec_weights :: "(string \<times> real) list option"

record document =
  doc_vertices :: "vrecord list option"

section \<open>UV averaging\<close>

text \<open>
  The list comprehension of \<^verbatim>\<open>get_uv_coords\<close>: the UVs of the loops of the vertex, in
  loop order. \<^verbatim>\<open>uv_data[loop.index]\<close> raises \<open>IndexError\<close> out of range.
\<close>

fun collect_uvs :: "(real \<times> real) list \<Rightarrow> nat \<Rightarrow> loop list \<Rightarrow> py_error + (real \<times> real) list" where
  "collect_uvs uv_data vi [] = Inr []"
| "collect_uvs uv_data vi (l # ls) =
     (if loop_vertex_index l = vi then
        (if loop_index l < length uv_data then
           (case collect_uvs uv_data vi ls of
              Inl e \<Rightarrow> Inl e
            | Inr uvs \<Rightarrow> Inr (uv_data ! loop_index l # uvs))
         else Inl IndexError)
      else collect_uvs uv_data vi ls)"

text \<open>
  \<^verbatim>\<open>[sum(coord) / len(uvs) for coord in zip(*uvs)]\<close> on a non-empty list of pairs: the
  two coordinate sums, each divided by the number of pairs.
\<close>

definition avg_uv :: "(real \<times> real) list \<Rightarrow> real list" where
  "avg_uv uvs =
     [sum_list (map fst uvs) / real (length uvs), sum_list (map snd uvs) / real (length uvs)]"

definition get_uv_coords :: "object \<Rightarrow> nat \<Rightarrow> py_error + real list option" where
  "get_uv_coords obj vi =
     (case uv_layers_active (obj_data obj) of
        None \<Rightarrow> Inr None
      | Some uv_data \<Rightarrow>
          (case collect_uvs uv_data vi (loops (obj_data obj)) of
             Inl e \<Rightarrow> Inl e
           | Inr uvs \<Rightarrow> if uvs = [] then Inr None else Inr (Some (avg_uv uvs))))"

text \<open>
  The loop entries the averaging is about: the pairs (vertex index, UV) of the loops whose
  UV the layer holds.
\<close>

definition loop_entries :: "object \<Rightarrow> (nat \<times> real \<times> real) list" where
  "loop_entries obj =
     (case uv_layers_active (obj_data obj) of
        None \<Rightarrow> []
      | Some uv_data \<Rightarrow>
          map (\<lambda>l. (loop_vertex_index l, uv_data ! loop_index l)) (loops (obj_data obj)))"

definition matching_uvs :: "object \<Rightarrow> nat \<Rightarrow> (real \<times> real) list" where
  "matching_uvs obj vi = map snd (filter (\<lambda>e. fst e = vi) (loop_entries obj))"

text \<open>Every loop of the mesh has its UV in the active layer (the host keeps it so).\<close>

definition uv_layer_ok :: "object \<Rightarrow> bool" where
  "uv_layer_ok obj =
     (case uv_layers_active (obj_data obj) of
        None \<Rightarrow> True
      | Some uv_data \<Rightarrow> list_all (\<lambda>l. loop_index l < length uv_data) (loops (obj_data obj)))"

section \<open>The UV matcher\<close>

text \<open>
  \<^verbatim>\<open>sum((a - b) ** 2 for a, b in zip(target_uv, source_uv))\<close>: \<open>zip\<close> stops at the
  shorter list.
\<close>

definition sq_dist :: "real list \<Rightarrow> real list \<Rightarrow> real" where
  "sq_dist target source = sum_list (map (\<lambda>(a, b). (a - b)\<^sup>2) (zip target source))"

text \<open>\<^verbatim>\<open>dist < min_dist\<close>, where \<open>None\<close> is \<^verbatim>\<open>float('inf')\<close>.\<close>

fun less_min :: "real \<Rightarrow> real option \<Rightarrow> bool" where
  "less_min d None = True"
| "less_min d (Some m) = (d < m)"

text \<open>\<^verbatim>\<open>v.get("uv", [0.0, 0.0])\<close>.\<close>

definition source_uv :: "vrecord \<Rightarrow> real list" where
  "source_uv v = (case rec_uv v of None \<Rightarrow> [0, 0] | Some uv \<Rightarrow> uv)"

text \<open>The scan of \<^verbatim>\<open>find_closest_uv_match\<close>, with its two loop variables.\<close>

fun uv_scan :: "real list \<Rightarrow> (nat \<times> vrecord) list \<Rightarrow> real option \<Rightarrow> int \<Rightarrow> int" where
  "uv_scan target_uv [] min_dist best_index = best_index"
| "uv_scan target_uv ((i, v) # rest) min_dist best_index =
     (let dist = sq_dist target_uv (source_uv v) in
      if less_min dist min_dist then uv_scan target_uv rest (Some dist) (int i)
      else uv_scan target_uv rest min_dist best_index)"

text \<open>The target's UV: \<^verbatim>\<open>[0.0, 0.0]\<close> when \<^verbatim>\<open>get_uv_coords\<close> returns \<open>None\<close>.\<close>

definition target_uv_of :: "real list option \<Rightarrow> real list" where
  "target_uv_of r = (case r of None \<Rightarrow> [0, 0] | Some uv \<Rightarrow> uv)"

definition find_closest_uv_match :: "object \<Rightarrow> vertex \<Rightarrow> vrecord list \<Rightarrow> py_error + int" where
  "find_closest_uv_match obj vert source_data =
     (if source_data = [] then Inr (- 1)
      else
        (case get_uv_coords obj (vert_index vert) of
           Inl e \<Rightarrow> Inl e
         | Inr r \<Rightarrow> Inr (uv_scan (target_uv_of r) (enumerate 0 source_data) None (- 1))))"

section \<open>Export\<close>

text \<open>\<^verbatim>\<open>list(vert.co)\<close>.\<close>

fun list_of_vec :: "real \<times> real \<times> real \<Rightarrow> real list" where
  "list_of_vec (x, y, z) = [x, y, z]"

text \<open>
  \<^verbatim>\<open>get_uv_coords(obj, vert.index) or [0.0, 0.0]\<close>: the default also replaces an empty
  list, which is false in Python.
\<close>

definition or_default :: "real list option \<Rightarrow> real list" where
  "or_default r = (case r of None \<Rightarrow> [0, 0] | Some uv \<Rightarrow> if uv = [] then [0, 0] else uv)"

text \<open>
  The loop over \<^verbatim>\<open>obj.vertex_groups\<close>: a group that raises \<open>RuntimeError\<close> is passed
  over, a weight is stored when it is positive. \<^verbatim>\<open>d[k] = w\<close> on a dict replaces the value
  of a key it has and appends a new key otherwise.
\<close>

fun collect_weights :: "vertex_group list \<Rightarrow> nat \<Rightarrow> (string \<times> real) list \<Rightarrow> (string \<times> real) list" where
  "collect_weights [] vi weights = weights"
| "collect_weights (g # gs) vi weights =
     (case group_weight g vi of
        None \<Rightarrow> collect_weights gs vi weights
      | Some weight \<Rightarrow>
          if weight > 0 then collect_weights gs vi (AList.update (group_name g) weight weights)
          else collect_weights gs vi weights)"

text \<open>The dict \<^verbatim>\<open>v_data\<close> of one vertex, after the loop over the groups.\<close>

definition v_data :: "object \<Rightarrow> vertex \<Rightarrow> py_error + vrecord" where
  "v_data obj vert =
     (case get_uv_coords obj (vert_index vert) of
        Inl e \<Rightarrow> Inl e
      | Inr r \<Rightarrow>
          Inr \<lparr>rec_co = Some (list_of_vec (vert_co vert)),
               rec_uv = Some (or_default r),
               rec_weights = Some (collect_weights (vertex_groups obj) (vert_index vert) [])\<rparr>)"

text \<open>
  The files: their text, and which paths \<^verbatim>\<open>open(filepath, 'w')\<close> can open (it raises
  \<open>OSError\<close> otherwise).
\<close>

record filesystem =
  files :: "string \<rightharpoonup> string"
  writable :: "string \<Rightarrow> bool"

text \<open>
  What a call prints last before it returns, or the exception that leaves it. The
  progress bar and the log line of every tenth of the work are left out.
\<close>

datatype message =
    InvalidFilePath | NoMeshSelected | NoVerticesFound | ExportSuccessful
  | ImportFailed | NoValidVertexData | ImportSuccessful

datatype outcome = Printed message | Raised py_error

definition header :: string where
  "header = ''{\"vertices\": ['' @ [CHR 0x0A]"

definition separator :: string where
  "separator = '','' @ [CHR 0x0A]"

definition footer :: string where
  "footer = [CHR 0x0A] @ '']}''"

text \<open>
  The loop over \<^verbatim>\<open>enumerate(vertices)\<close>, writing to the open file \<open>f\<close>.
  \<^verbatim>\<open>json.dump\<close> is the parameter \<open>dump\<close>. An exception leaves the text written so far.
\<close>

fun export_loop ::
  "(vrecord \<Rightarrow> string) \<Rightarrow> object \<Rightarrow> nat \<Rightarrow> (nat \<times> vertex) list \<Rightarrow> string \<Rightarrow> py_error option \<times> string" where
  "export_loop dump obj total_verts [] f = (None, f)"
| "export_loop dump obj total_verts ((i, vert) # rest) f =
     (case v_data obj vert of
        Inl e \<Rightarrow> (Some e, f)
      | Inr r \<Rightarrow>
          export_loop dump obj total_verts rest
            (f @ dump r @ (if int i < int total_verts - 1 then separator else [])))"

definition export_skin_weights ::
  "(vrecord \<Rightarrow> string) \<Rightarrow> string \<Rightarrow> object option \<Rightarrow> filesystem \<Rightarrow> outcome \<times> filesystem" where
  "export_skin_weights dump filepath ctx_object fs =
     (if filepath = [] then (Printed InvalidFilePath, fs)
      else
        (case ctx_object of
           None \<Rightarrow> (Printed NoMeshSelected, fs)
         | Some obj \<Rightarrow>
             if obj_type obj \<noteq> ''MESH'' then (Printed NoMeshSelected, fs)
             else
               let total_verts = length (vertices (obj_data obj)) in
               if total_verts = 0 then (Printed NoVerticesFound, fs)
               else if \<not> writable fs filepath then (Raised OSError, fs)
               else
                 (case export_loop dump obj total_verts
                         (enumerate 0 (vertices (obj_data obj))) header of
                    (Some e, f) \<Rightarrow> (Raised e, fs\<lparr>files := (files fs)(filepath \<mapsto> f)\<rparr>)
                  | (None, f) \<Rightarrow>
                      (Printed ExportSuccessful,
                       fs\<lparr>files := (files fs)(filepath \<mapsto> f @ footer)\<rparr>))))"

text \<open>
  The records the loop has dumped: those of the vertices before the first exception. The
  document the written text denotes holds them under \<open>vertices\<close>.
\<close>

fun dumped_records :: "object \<Rightarrow> vertex list \<Rightarrow> vrecord list" where
  "dumped_records obj [] = []"
| "dumped_records obj (vert # rest) =
     (case v_data obj vert of Inl e \<Rightarrow> [] | Inr r \<Rightarrow> r # dumped_records obj rest)"



section \<open>The host's interfaces used by the import\<close>

text \<open>
  Modelled from the spec: \<^verbatim>\<open>mathutils.kdtree.KDTree\<close>, the host's spatial index, is not
  code of the addon. Section 4.3 of the specification asks of it an exact nearest-neighbour
  query by Euclidean distance in 3D, ties broken by the first point met. The index is the
  list of the inserted points with their record indices; \<open>insert\<close> refuses a point that
  is not three numbers; \<open>find\<close> on an empty index finds nothing.
\<close>

type_synonym kdtree = "(real list \<times> nat) list"

definition kd_insert :: "kdtree \<Rightarrow> real list \<Rightarrow> nat \<Rightarrow> py_error + kdtree" where
  "kd_insert tree co i = (if length co = 3 then Inr (tree @ [(co, i)]) else Inl ValueError)"

fun kd_scan :: "real list \<Rightarrow> kdtree \<Rightarrow> (real \<times> nat) option \<Rightarrow> (real \<times> nat) option" where
  "kd_scan q [] best = best"
| "kd_scan q ((co, i) # rest) best =
     (case best of
        None \<Rightarrow> kd_scan q rest (Some (sq_dist q co, i))
      | Some (m, k) \<Rightarrow>
          if sq_dist q co < m then kd_scan q rest (Some (sq_dist q co, i))
          else kd_scan q rest best)"

definition kd_find :: "kdtree \<Rightarrow> real list \<Rightarrow> nat option" where
  "kd_find tree q = map_option snd (kd_scan q tree None)"

text \<open>
  Modelled from the spec: the weight sink of section 6 (the host's
  \<^verbatim>\<open>obj.vertex_groups\<close>). \<open>get\<close> finds the first group of a name, \<open>new\<close> appends an
  empty group of that name, and \<open>add\<close> with \<open>REPLACE\<close> sets the weight of a vertex in
  a group, whatever it was. Groups are addressed by their place in the list.
\<close>

fun vertex_groups_get :: "vertex_group list \<Rightarrow> string \<Rightarrow> nat option" where
  "vertex_groups_get [] n = None"
| "vertex_groups_get (g # gs) n =
     (if group_name g = n then Some 0 else map_option Suc (vertex_groups_get gs n))"

definition vertex_groups_new :: "vertex_group list \<Rightarrow> string \<Rightarrow> vertex_group list" where
  "vertex_groups_new gs n = gs @ [\<lparr>group_name = n, group_weight = Map.empty\<rparr>]"

definition group_add_replace :: "vertex_group list \<Rightarrow> nat \<Rightarrow> nat \<Rightarrow> real \<Rightarrow> vertex_group list" where
  "group_add_replace gs k vi w = gs[k := (gs ! k)\<lparr>group_weight := (group_weight (gs ! k))(vi \<mapsto> w)\<rparr>]"

section \<open>Import\<close>

text \<open>\<^verbatim>\<open>xs[i]\<close> on a Python list: a negative index counts from the end.\<close>

definition py_getitem :: "'a list \<Rightarrow> int \<Rightarrow> py_error + 'a" where
  "py_getitem xs i =
     (if 0 \<le> i \<and> i < int (length xs) then Inr (xs ! nat i)
      else if i < 0 \<and> - int (length xs) \<le> i then Inr (xs ! nat (int (length xs) + i))
      else Inl IndexError)"

text \<open>
  The loop that fills the index: \<^verbatim>\<open>v["co"]\<close> raises \<open>KeyError\<close> for a record with no
  position.
\<close>

fun build_tree :: "kdtree \<Rightarrow> (nat \<times> vrecord) list \<Rightarrow> py_error + kdtree" where
  "build_tree old_tree [] = Inr old_tree"
| "build_tree old_tree ((i, v) # rest) =
     (case rec_co v of
        None \<Rightarrow> Inl KeyError
      | Some co \<Rightarrow>
          (case kd_insert old_tree co i of
             Inl e \<Rightarrow> Inl e
           | Inr tree \<Rightarrow> build_tree tree rest))"

text \<open>
  The body of the loop over \<^verbatim>\<open>weights.items()\<close>: the group is looked up, created when
  there is none, and the weight is set with \<open>REPLACE\<close>.
\<close>

definition apply_weight :: "object \<Rightarrow> nat \<Rightarrow> string \<Rightarrow> real \<Rightarrow> object" where
  "apply_weight obj vi gname weight =
     (case vertex_groups_get (vertex_groups obj) gname of
        Some k \<Rightarrow> obj\<lparr>vertex_groups := group_add_replace (vertex_groups obj) k vi weight\<rparr>
      | None \<Rightarrow>
          obj\<lparr>vertex_groups :=
                group_add_replace (vertex_groups_new (vertex_groups obj) gname)
                  (length (vertex_groups obj)) vi weight\<rparr>)"

fun apply_weights :: "object \<Rightarrow> nat \<Rightarrow> (string \<times> real) list \<Rightarrow> object" where
  "apply_weights obj vi [] = obj"
| "apply_weights obj vi ((gname, weight) # rest) =
     apply_weights (apply_weight obj vi gname weight) vi rest"

text \<open>
  The end of the body of the loop over the vertices, from
  \<^verbatim>\<open>closest_data = vertices_data[index]\<close> on.
\<close>

definition apply_record :: "vrecord list \<Rightarrow> int \<Rightarrow> object \<Rightarrow> vertex \<Rightarrow> py_error + object" where
  "apply_record vertices_data index obj vert =
     (case py_getitem vertices_data index of
        Inl e \<Rightarrow> Inl e
      | Inr closest_data \<Rightarrow>
          (let weights = (case rec_weights closest_data of None \<Rightarrow> [] | Some ws \<Rightarrow> ws) in
           if weights = [] then Inr obj
           else Inr (apply_weights obj (vert_index vert) weights)))"

text \<open>
  The body of the loop over the vertices. \<open>find\<close> on an empty index gives \<open>None\<close> for
  the record index, and a list indexed by \<open>None\<close> raises \<open>TypeError\<close>.
\<close>

definition import_vertex ::
  "string \<Rightarrow> kdtree \<Rightarrow> vrecord list \<Rightarrow> object \<Rightarrow> vertex \<Rightarrow> py_error + object" where
  "import_vertex mapping_mode old_tree vertices_data obj vert =
     (if mapping_mode = ''POSITION'' then
        (case kd_find old_tree (list_of_vec (vert_co vert)) of
           None \<Rightarrow> Inl TypeError
         | Some index \<Rightarrow> apply_record vertices_data (int index) obj vert)
      else if mapping_mode = ''UV'' then
        (case find_closest_uv_match obj vert vertices_data of
           Inl e \<Rightarrow> Inl e
         | Inr index \<Rightarrow>
             if index = - 1 then Inr obj
             else apply_record vertices_data index obj vert)
      else Inr obj)"

fun import_loop ::
  "string \<Rightarrow> kdtree \<Rightarrow> vrecord list \<Rightarrow> object \<Rightarrow> vertex list \<Rightarrow> py_error option \<times> object" where
  "import_loop mapping_mode old_tree vertices_data obj [] = (None, obj)"
| "import_loop mapping_mode old_tree vertices_data obj (vert # rest) =
     (case import_vertex mapping_mode old_tree vertices_data obj vert of
        Inl e \<Rightarrow> (Some e, obj)
      | Inr obj' \<Rightarrow> import_loop mapping_mode old_tree vertices_data obj' rest)"

text \<open>
  \<^verbatim>\<open>import_skin_weights\<close>. \<open>loaded\<close> is what \<^verbatim>\<open>open\<close> and \<^verbatim>\<open>json.load\<close> give for
  the path: \<open>None\<close> when either raises. The result is the outcome and the active object
  after the call.
\<close>

definition import_skin_weights ::
  "string \<Rightarrow> string \<Rightarrow> document option \<Rightarrow> object option \<Rightarrow> outcome \<times> object option" where
  "import_skin_weights filepath mapping_mode loaded ctx_object =
     (if filepath = [] then (Printed InvalidFilePath, ctx_object)
      else
        (case ctx_object of
           None \<Rightarrow> (Printed NoMeshSelected, ctx_object)
         | Some obj \<Rightarrow>
             if obj_type obj \<noteq> ''MESH'' then (Printed NoMeshSelected, ctx_object)
             else
               (case loaded of
                  None \<Rightarrow> (Printed ImportFailed, ctx_object)
                | Some skin_data \<Rightarrow>
                    (let vertices_data =
                           (case doc_vertices skin_data of None \<Rightarrow> [] | Some vs \<Rightarrow> vs) in
                     if vertices_data = [] then (Printed NoValidVertexData, ctx_object)
                     else
                       (case (if mapping_mode = ''POSITION''
                              then build_tree [] (enumerate 0 vertices_data) else Inr []) of
                          Inl e \<Rightarrow> (Raised e, ctx_object)
                        | Inr old_tree \<Rightarrow>
                            (case import_loop mapping_mode old_tree vertices_data obj
                                    (vertices (obj_data obj)) of
                               (Some e, obj') \<Rightarrow> (Raised e, Some obj')
                             | (None, obj') \<Rightarrow> (Printed ImportSuccessful, Some obj')))))))"

text \<open>The weight of a vertex in the group of a name, as the sink reports it.\<close>

definition weight_of :: "object \<Rightarrow> string \<Rightarrow> nat \<Rightarrow> real option" where
  "weight_of obj gname vi =
     (case vertex_groups_get (vertex_groups obj) gname of
        None \<Rightarrow> None
      | Some k \<Rightarrow> group_weight (vertex_groups obj ! k) vi)"

section \<open>Notions of the specification, and examples\<close>



text \<open>
  An index \<open>k\<close> below \<open>n\<close> is the first minimum of \<open>D\<close>: no index has a smaller value,
  and every index before \<open>k\<close> has a larger one.
\<close>

definition first_min :: "(nat \<Rightarrow> real) \<Rightarrow> nat \<Rightarrow> nat \<Rightarrow> bool" where
  "first_min D n k = (k < n \<and> (\<forall>j < n. D k \<le> D j) \<and> (\<forall>j < k. D k < D j))"

text \<open>
  A record has a position the spatial index accepts; and that position (the empty list
  when there is none).
\<close>

definition has_position :: "vrecord \<Rightarrow> bool" where
  "has_position v = (case rec_co v of None \<Rightarrow> False | Some co \<Rightarrow> length co = 3)"

definition position_of :: "vrecord \<Rightarrow> real list" where
  "position_of v = (case rec_co v of None \<Rightarrow> [] | Some co \<Rightarrow> co)"


text \<open>
  A mesh of two vertices for the examples. Vertex 0 lies on a UV seam, with UVs \<open>(0, 0)\<close>
  and \<open>(1, 1)\<close>; vertex 1 is in no face. Vertex 1 has weight 0 in the group \<open>arm\<close>.
\<close>

definition seam_obj :: object where
  "seam_obj =
     \<lparr>obj_type = ''MESH'',
      obj_data =
        \<lparr>vertices = [\<lparr>vert_index = 0, vert_co = (0, 0, 0)\<rparr>, \<lparr>vert_index = 1, vert_co = (10, 0, 0)\<rparr>],
         loops = [\<lparr>loop_index = 0, loop_vertex_index = 0\<rparr>, \<lparr>loop_index = 1, loop_vertex_index = 0\<rparr>],
         uv_layers_active = Some [(0, 0), (1, 1)]\<rparr>,
      vertex_groups =
        [\<lparr>group_name = ''arm'', group_weight = [0 \<mapsto> 3 / 10, 1 \<mapsto> 0]\<rparr>,
         \<lparr>group_name = ''leg'', group_weight = [1 \<mapsto> 1]\<rparr>]\<rparr>"


definition seam_vert1 :: vertex where
  "seam_vert1 = \<lparr>vert_index = Suc 0, vert_co = (10, 0, 0)\<rparr>"


definition bare_obj :: object where
  "bare_obj =
     \<lparr>obj_type = ''MESH'',
      obj_data = \<lparr>vertices = [], loops = [], uv_layers_active = None\<rparr>,
      vertex_groups = [\<lparr>group_name = ''arm'', group_weight = Map.empty\<rparr>]\<rparr>"

text \<open>
  Two datasets. In the first the two records are equally far from the UV \<open>(1/2, 1/2)\<close>. In
  the second, record 1 has neither \<open>uv\<close> nor \<open>weights\<close> and record 2 has no weight.
\<close>

definition corner_data :: "vrecord list" where
  "corner_data =
     [\<lparr>rec_co = Some [0, 0, 0], rec_uv = Some [0, 0], rec_weights = Some [(''arm'', 7 / 10)]\<rparr>,
      \<lparr>rec_co = Some [1, 0, 0], rec_uv = Some [1, 1], rec_weights = Some [(''leg'', 1)]\<rparr>]"

definition sparse_data :: "vrecord list" where
  "sparse_data =
     [\<lparr>rec_co = Some [0, 0, 0], rec_uv = Some [1, 1], rec_weights = Some [(''arm'', 7 / 10)]\<rparr>,
      \<lparr>rec_co = Some [1, 0, 0], rec_uv = None, rec_weights = None\<rparr>,
      \<lparr>rec_co = Some [2, 0, 0], rec_uv = Some [0, 0], rec_weights = Some []\<rparr>]"

text \<open>A file system where every path can be written, and a \<open>dump\<close> for the examples.\<close>

definition open_fs :: filesystem where
  "open_fs = \<lparr>files = Map.empty, writable = (\<lambda>p. True)\<rparr>"

definition brief_dump :: "vrecord \<Rightarrow> string" where
  "brief_dump r = ''{}''"

section \<open>UV averaging: the mean of the matching loops\<close>

lemma collect_uvs_ok:
  "list_all (\<lambda>l. loop_index l < length uv_data) ls \<Longrightarrow>
   collect_uvs uv_data vi ls =
     Inr (map (\<lambda>l. uv_data ! loop_index l) (filter (\<lambda>l. loop_vertex_index l = vi) ls))"
  by (induction ls) simp_all

lemma get_uv_coords_ok:
  assumes "uv_layer_ok obj"
  shows "get_uv_coords obj vi =
           Inr (if matching_uvs obj vi = [] then None else Some (avg_uv (matching_uvs obj vi)))"
proof (cases "uv_layers_active (obj_data obj)")
  case None
  then show ?thesis
    by (simp add: get_uv_coords_def matching_uvs_def loop_entries_def)
next
  case (Some uv_data)
  with assms have ok: "list_all (\<lambda>l. loop_index l < length uv_data) (loops (obj_data obj))"
    by (simp add: uv_layer_ok_def)
  have "matching_uvs obj vi =
          map (\<lambda>l. uv_data ! loop_index l)
            (filter (\<lambda>l. loop_vertex_index l = vi) (loops (obj_data obj)))"
    by (simp add: matching_uvs_def loop_entries_def Some filter_map comp_def)
  with Some collect_uvs_ok [OF ok, of vi] show ?thesis
    by (simp add: get_uv_coords_def)
qed

text \<open>
  Claim C3. When every loop has its UV in the layer, \<^verbatim>\<open>get_uv_coords\<close> returns no UV if
  no loop entry has the vertex index (in particular when there is no UV layer), and
  otherwise the component-wise arithmetic mean of the UVs of exactly the entries with that
  vertex index. The function only reads the object.
\<close>

theorem get_uv_coords_mean:
  assumes "uv_layer_ok obj"
  shows "get_uv_coords obj vi =
           Inr (if matching_uvs obj vi = [] then None
                else Some [sum_list (map fst (matching_uvs obj vi)) / real (length (matching_uvs obj vi)),
                           sum_list (map snd (matching_uvs obj vi)) / real (length (matching_uvs obj vi))])"
  using get_uv_coords_ok [OF assms, of vi] by (simp add: avg_uv_def)

text \<open>
  For the UVs \<open>(0, 0)\<close> and \<open>(1, 1)\<close> of vertex 0 the mean is \<open>(1/2, 1/2)\<close>; vertex 1
  has no loop and no UV.
\<close>

theorem get_uv_coords_mean_witness:
  "uv_layer_ok seam_obj \<and> matching_uvs seam_obj 0 = [(0, 0), (1, 1)] \<and>
   get_uv_coords seam_obj 0 = Inr (Some [1 / 2, 1 / 2]) \<and>
   get_uv_coords seam_obj 1 = Inr None"
proof -
  have ok: "uv_layer_ok seam_obj"
    by (simp add: uv_layer_ok_def seam_obj_def)
  have m0: "matching_uvs seam_obj 0 = [(0, 0), (1, 1)]"
    by (simp add: matching_uvs_def loop_entries_def seam_obj_def)
  have m1: "matching_uvs seam_obj 1 = []"
    by (simp add: matching_uvs_def loop_entries_def seam_obj_def)
  from get_uv_coords_mean [OF ok, of 0] get_uv_coords_mean [OF ok, of 1] ok m0 m1
  show ?thesis by simp
qed

section \<open>Export: the records and the written text\<close>

lemma set_update_cases:
  "p \<in> set (AList.update k v ws) \<Longrightarrow> p = (k, v) \<or> p \<in> set ws"
  by (induction ws) (auto split: if_splits)


lemma collect_weights_pos:
  "\<forall>p \<in> set ws. snd p > 0 \<Longrightarrow> \<forall>p \<in> set (collect_weights gs vi ws). snd p > 0"
proof (induction gs arbitrary: ws)
  case Nil
  then show ?case by simp
next
  case (Cons g gs)
  show ?case
  proof (cases "group_weight g vi")
    case None
    with Cons show ?thesis by simp
  next
    case (Some w)
    show ?thesis
    proof (cases "w > 0")
      case True
      have "\<forall>p \<in> set (AList.update (group_name g) w ws). snd p > 0"
        using Cons.prems True by (auto dest: set_update_cases)
      from Cons.IH [OF this] Some True show ?thesis by simp
    next
      case False
      with Some Cons show ?thesis by simp
    qed
  qed
qed



lemma dumped_records_weights:
  "r \<in> set (dumped_records obj vs) \<Longrightarrow>
   \<exists>vert \<in> set vs. v_data obj vert = Inr r"
  by (induction vs) (auto split: sum.splits)

lemma v_data_weights_pos:
  "v_data obj vert = Inr r \<Longrightarrow> rec_weights r = Some ws \<Longrightarrow> p \<in> set ws \<Longrightarrow> snd p > 0"
  using collect_weights_pos [of "[]" "vertex_groups obj" "vert_index vert"]
  by (auto simp: v_data_def split: sum.splits)

lemma collect_weights_origin:
  "p \<in> set (collect_weights gs vi ws) \<Longrightarrow>
   p \<in> set ws \<or> (\<exists>g \<in> set gs. group_name g = fst p \<and> group_weight g vi = Some (snd p))"
proof (induction gs arbitrary: ws)
  case Nil
  then show ?case by simp
next
  case (Cons g gs)
  show ?case
  proof (cases "group_weight g vi")
    case None
    with Cons.prems Cons.IH [of ws] show ?thesis by auto
  next
    case (Some w)
    show ?thesis
    proof (cases "w > 0")
      case True
      with Some Cons.prems
      have "p \<in> set (collect_weights gs vi (AList.update (group_name g) w ws))" by simp
      from Cons.IH [OF this] Some show ?thesis
        by (auto dest: set_update_cases)
    next
      case False
      with Some Cons.prems Cons.IH [of ws] show ?thesis by auto
    qed
  qed
qed






lemma seam_obj_uv0: "get_uv_coords seam_obj 0 = Inr (Some [1 / 2, 1 / 2])"
  by (simp add: get_uv_coords_def seam_obj_def avg_uv_def)

lemma seam_obj_uv1: "get_uv_coords seam_obj (Suc 0) = Inr None"
  by (simp add: get_uv_coords_def seam_obj_def)

lemma seam_obj_v_data0:
  "v_data seam_obj \<lparr>vert_index = 0, vert_co = (0, 0, 0)\<rparr> =
     Inr \<lparr>rec_co = Some [0, 0, 0], rec_uv = Some [1 / 2, 1 / 2],
          rec_weights = Some [(''arm'', 3 / 10)]\<rparr>"
  by (simp add: v_data_def seam_obj_uv0 or_default_def) (simp add: seam_obj_def)

lemma seam_obj_v_data1:
  "v_data seam_obj \<lparr>vert_index = Suc 0, vert_co = (10, 0, 0)\<rparr> =
     Inr \<lparr>rec_co = Some [10, 0, 0], rec_uv = Some [0, 0],
          rec_weights = Some [(''leg'', 1)]\<rparr>"
  by (simp add: v_data_def seam_obj_uv1 or_default_def) (simp add: seam_obj_def)

lemma seam_obj_vertices:
  "vertices (obj_data seam_obj) =
     [\<lparr>vert_index = 0, vert_co = (0, 0, 0)\<rparr>, \<lparr>vert_index = 1, vert_co = (10, 0, 0)\<rparr>]"
  by (simp add: seam_obj_def)

lemma seam_obj_dumped:
  "dumped_records seam_obj (vertices (obj_data seam_obj)) =
     [\<lparr>rec_co = Some [0, 0, 0], rec_uv = Some [1 / 2, 1 / 2], rec_weights = Some [(''arm'', 3 / 10)]\<rparr>,
      \<lparr>rec_co = Some [10, 0, 0], rec_uv = Some [0, 0], rec_weights = Some [(''leg'', 1)]\<rparr>]"
  by (simp add: seam_obj_vertices seam_obj_v_data0 seam_obj_v_data1)

text \<open>
  Claim C2. Every weight in a record of the exported dataset is strictly positive, and it
  is the weight that a group of that name reports for a vertex of the mesh: a weight that
  is zero, negative or unset is never written.
\<close>

theorem exported_weights_positive:
  assumes "r \<in> set (dumped_records obj (vertices (obj_data obj)))"
    and "rec_weights r = Some ws"
    and "(n, w) \<in> set ws"
  shows "0 < w \<and>
         (\<exists>vert \<in> set (vertices (obj_data obj)). \<exists>g \<in> set (vertex_groups obj).
            group_name g = n \<and> group_weight g (vert_index vert) = Some w)"
proof -
  from dumped_records_weights [OF assms(1)]
  obtain vert where vert: "vert \<in> set (vertices (obj_data obj))" "v_data obj vert = Inr r"
    by blast
  from vert(2) assms(2)
  have ws: "ws = collect_weights (vertex_groups obj) (vert_index vert) []"
    by (auto simp: v_data_def split: sum.splits)
  from v_data_weights_pos [OF vert(2) assms(2) assms(3)] have "0 < w" by simp
  moreover from collect_weights_origin [of "(n, w)" "vertex_groups obj" "vert_index vert" "[]"]
    assms(3) ws
  have "\<exists>g \<in> set (vertex_groups obj). group_name g = n \<and> group_weight g (vert_index vert) = Some w"
    by simp
  ultimately show ?thesis using vert(1) by blast
qed

text \<open>
  In the example the weight 0 of vertex 1 in \<open>arm\<close> is left out, and \<open>3/10\<close> of vertex 0
  is kept.
\<close>

theorem exported_weights_positive_witness:
  "dumped_records seam_obj (vertices (obj_data seam_obj)) =
     [\<lparr>rec_co = Some [0, 0, 0], rec_uv = Some [1 / 2, 1 / 2], rec_weights = Some [(''arm'', 3 / 10)]\<rparr>,
      \<lparr>rec_co = Some [10, 0, 0], rec_uv = Some [0, 0], rec_weights = Some [(''leg'', 1)]\<rparr>] \<and>
   (0::real) < 3 / 10 \<and>
   (\<exists>vert \<in> set (vertices (obj_data seam_obj)). \<exists>g \<in> set (vertex_groups seam_obj).
      group_name g = ''arm'' \<and> group_weight g (vert_index vert) = Some (3 / 10))"
  using exported_weights_positive
    [of "\<lparr>rec_co = Some [0, 0, 0], rec_uv = Some [1 / 2, 1 / 2], rec_weights = Some [(''arm'', 3 / 10)]\<rparr>"
        seam_obj "[(''arm'', 3 / 10)]" "''arm''" "3 / 10"]
  by (simp add: seam_obj_dumped)






section \<open>The UV matcher: a first minimum\<close>

lemma uv_scan_Some:
  "uv_scan t (enumerate n vs) (Some m) (int b) = k \<Longrightarrow>
   (k = int b \<and> (\<forall>j < length vs. m \<le> sq_dist t (source_uv (vs ! j)))) \<or>
   (\<exists>j < length vs. k = int (n + j) \<and> sq_dist t (source_uv (vs ! j)) < m \<and>
      (\<forall>i < length vs. sq_dist t (source_uv (vs ! j)) \<le> sq_dist t (source_uv (vs ! i))) \<and>
      (\<forall>i < j. sq_dist t (source_uv (vs ! j)) < sq_dist t (source_uv (vs ! i))))"
proof (induction vs arbitrary: n m b)
  case Nil
  then show ?case by simp
next
  case (Cons v vs)
  let ?d = "\<lambda>x. sq_dist t (source_uv x)"
  show ?case
  proof (cases "?d v < m")
    case True
    with Cons.prems have "uv_scan t (enumerate (Suc n) vs) (Some (?d v)) (int n) = k"
      by (simp add: Let_def)
    from Cons.IH [OF this] show ?thesis
    proof
      assume a: "k = int n \<and> (\<forall>j < length vs. ?d v \<le> ?d (vs ! j))"
      have "0 < length (v # vs) \<and> k = int (n + 0) \<and> ?d ((v # vs) ! 0) < m \<and>
            (\<forall>i < length (v # vs). ?d ((v # vs) ! 0) \<le> ?d ((v # vs) ! i)) \<and>
            (\<forall>i < 0. ?d ((v # vs) ! 0) < ?d ((v # vs) ! i))"
        using a True by (auto simp: nth_Cons')
      then show ?thesis by blast
    next
      assume "\<exists>j < length vs. k = int (Suc n + j) \<and> ?d (vs ! j) < ?d v \<and>
                (\<forall>i < length vs. ?d (vs ! j) \<le> ?d (vs ! i)) \<and>
                (\<forall>i < j. ?d (vs ! j) < ?d (vs ! i))"
      then obtain j where j: "j < length vs" "k = int (Suc n + j)" "?d (vs ! j) < ?d v"
        "\<forall>i < length vs. ?d (vs ! j) \<le> ?d (vs ! i)" "\<forall>i < j. ?d (vs ! j) < ?d (vs ! i)"
        by blast
      have "Suc j < length (v # vs) \<and> k = int (n + Suc j) \<and> ?d ((v # vs) ! Suc j) < m \<and>
            (\<forall>i < length (v # vs). ?d ((v # vs) ! Suc j) \<le> ?d ((v # vs) ! i)) \<and>
            (\<forall>i < Suc j. ?d ((v # vs) ! Suc j) < ?d ((v # vs) ! i))"
        using j True by (auto simp: nth_Cons' less_Suc_eq_0_disj)
      then show ?thesis by blast
    qed
  next
    case False
    with Cons.prems have "uv_scan t (enumerate (Suc n) vs) (Some m) (int b) = k"
      by (simp add: Let_def)
    from Cons.IH [OF this] show ?thesis
    proof
      assume a: "k = int b \<and> (\<forall>j < length vs. m \<le> ?d (vs ! j))"
      have "k = int b \<and> (\<forall>j < length (v # vs). m \<le> ?d ((v # vs) ! j))"
        using a False by (auto simp: nth_Cons')
      then show ?thesis by blast
    next
      assume "\<exists>j < length vs. k = int (Suc n + j) \<and> ?d (vs ! j) < m \<and>
                (\<forall>i < length vs. ?d (vs ! j) \<le> ?d (vs ! i)) \<and>
                (\<forall>i < j. ?d (vs ! j) < ?d (vs ! i))"
      then obtain j where j: "j < length vs" "k = int (Suc n + j)" "?d (vs ! j) < m"
        "\<forall>i < length vs. ?d (vs ! j) \<le> ?d (vs ! i)" "\<forall>i < j. ?d (vs ! j) < ?d (vs ! i)"
        by blast
      have "Suc j < length (v # vs) \<and> k = int (n + Suc j) \<and> ?d ((v # vs) ! Suc j) < m \<and>
            (\<forall>i < length (v # vs). ?d ((v # vs) ! Suc j) \<le> ?d ((v # vs) ! i)) \<and>
            (\<forall>i < Suc j. ?d ((v # vs) ! Suc j) < ?d ((v # vs) ! i))"
        using j False by (auto simp: nth_Cons' less_Suc_eq_0_disj)
      then show ?thesis by blast
    qed
  qed
qed

lemma uv_scan_first_min:
  assumes "vs \<noteq> []"
  shows "\<exists>k. uv_scan t (enumerate 0 vs) None (- 1) = int k \<and>
             first_min (\<lambda>j. sq_dist t (source_uv (vs ! j))) (length vs) k"
proof -
  let ?d = "\<lambda>x. sq_dist t (source_uv x)"
  from assms obtain v rest where vs: "vs = v # rest" by (cases vs) auto
  define k where "k = uv_scan t (enumerate (Suc 0) rest) (Some (?d v)) (int 0)"
  have scan: "uv_scan t (enumerate 0 vs) None (- 1) = k"
    by (simp add: vs k_def Let_def)
  from uv_scan_Some [of t "Suc 0" rest "?d v" 0 k] k_def
  have "(k = int 0 \<and> (\<forall>j < length rest. ?d v \<le> ?d (rest ! j))) \<or>
        (\<exists>j < length rest. k = int (Suc 0 + j) \<and> ?d (rest ! j) < ?d v \<and>
           (\<forall>i < length rest. ?d (rest ! j) \<le> ?d (rest ! i)) \<and>
           (\<forall>i < j. ?d (rest ! j) < ?d (rest ! i)))"
    by simp
  then show ?thesis
  proof
    assume a: "k = int 0 \<and> (\<forall>j < length rest. ?d v \<le> ?d (rest ! j))"
    then have "first_min (\<lambda>j. ?d (vs ! j)) (length vs) 0"
      by (auto simp: first_min_def vs nth_Cons')
    with a scan show ?thesis by auto
  next
    assume "\<exists>j < length rest. k = int (Suc 0 + j) \<and> ?d (rest ! j) < ?d v \<and>
           (\<forall>i < length rest. ?d (rest ! j) \<le> ?d (rest ! i)) \<and>
           (\<forall>i < j. ?d (rest ! j) < ?d (rest ! i))"
    then obtain j where j: "j < length rest" "k = int (Suc 0 + j)" "?d (rest ! j) < ?d v"
        "\<forall>i < length rest. ?d (rest ! j) \<le> ?d (rest ! i)" "\<forall>i < j. ?d (rest ! j) < ?d (rest ! i)"
      by blast
    then have "first_min (\<lambda>j. ?d (vs ! j)) (length vs) (Suc j)"
      by (auto simp: first_min_def vs nth_Cons' less_Suc_eq_0_disj)
    moreover from j(2) scan have "uv_scan t (enumerate 0 vs) None (- 1) = int (Suc j)"
      by simp
    ultimately show ?thesis by blast
  qed
qed






section \<open>The weight sink: replace semantics\<close>

lemma vertex_groups_get_Some:
  "vertex_groups_get gs n = Some k \<Longrightarrow>
   k < length gs \<and> group_name (gs ! k) = n \<and> (\<forall>j < k. group_name (gs ! j) \<noteq> n)"
proof (induction gs arbitrary: k)
  case Nil
  then show ?case by simp
next
  case (Cons g gs)
  show ?case
  proof (cases "group_name g = n")
    case True
    with Cons.prems show ?thesis by simp
  next
    case False
    with Cons.prems obtain k' where k': "vertex_groups_get gs n = Some k'" "k = Suc k'"
      by auto
    from Cons.IH [OF k'(1)] False k'(2) show ?thesis
      by (auto simp: nth_Cons' less_Suc_eq_0_disj)
  qed
qed

lemma vertex_groups_get_None:
  "vertex_groups_get gs n = None \<longleftrightarrow> n \<notin> group_name ` set gs"
  by (induction gs) auto

lemma vertex_groups_get_names:
  "map group_name gs = map group_name gs' \<Longrightarrow> vertex_groups_get gs n = vertex_groups_get gs' n"
proof (induction gs arbitrary: gs')
  case Nil
  then show ?case by simp
next
  case (Cons g gs)
  then obtain g' gs'' where "gs' = g' # gs''" by (cases gs') auto
  with Cons show ?case by auto
qed

lemma names_group_add_replace:
  "map group_name (group_add_replace gs k vi w) = map group_name gs"
proof (cases "k < length gs")
  case True
  then show ?thesis
    by (simp add: group_add_replace_def map_update list_update_same_conv)
next
  case False
  then have "gs[k := (gs ! k)\<lparr>group_weight := (group_weight (gs ! k))(vi \<mapsto> w)\<rparr>] = gs"
    by (intro list_update_beyond) simp
  then show ?thesis
    by (simp add: group_add_replace_def)
qed

lemma vertex_groups_get_append:
  "vertex_groups_get (gs @ [g]) n =
     (case vertex_groups_get gs n of
        Some k \<Rightarrow> Some k
      | None \<Rightarrow> if group_name g = n then Some (length gs) else None)"
  by (induction gs) (auto split: option.splits)

lemma names_apply_weight:
  "map group_name (vertex_groups (apply_weight obj vi n w)) =
     (if n \<in> group_name ` set (vertex_groups obj) then map group_name (vertex_groups obj)
      else map group_name (vertex_groups obj) @ [n])"
  by (cases "vertex_groups_get (vertex_groups obj) n")
     (auto simp: apply_weight_def names_group_add_replace vertex_groups_new_def
        vertex_groups_get_None [symmetric])

lemma weight_of_apply_weight_same:
  "weight_of (apply_weight obj vi n w) n vi = Some w"
proof (cases "vertex_groups_get (vertex_groups obj) n")
  case None
  let ?gs = "vertex_groups_new (vertex_groups obj) n"
  have get: "vertex_groups_get (group_add_replace ?gs (length (vertex_groups obj)) vi w) n =
               Some (length (vertex_groups obj))"
    using None
    by (simp add: vertex_groups_get_names [OF names_group_add_replace]
        vertex_groups_new_def vertex_groups_get_append)
  show ?thesis
    using None get
    by (simp add: weight_of_def apply_weight_def)
       (simp add: group_add_replace_def vertex_groups_new_def)
next
  case (Some k)
  from vertex_groups_get_Some [OF Some] have k: "k < length (vertex_groups obj)" by simp
  have get: "vertex_groups_get (group_add_replace (vertex_groups obj) k vi w) n = Some k"
    using Some by (simp add: vertex_groups_get_names [OF names_group_add_replace])
  show ?thesis
    using Some get k
    by (simp add: weight_of_def apply_weight_def) (simp add: group_add_replace_def)
qed

lemma weight_of_apply_weight_other:
  assumes "n' \<noteq> n \<or> vi' \<noteq> vi"
  shows "weight_of (apply_weight obj vi n w) n' vi' = weight_of obj n' vi'"
proof (cases "vertex_groups_get (vertex_groups obj) n")
  case None
  let ?gs = "vertex_groups obj"
  let ?new = "group_add_replace (vertex_groups_new ?gs n) (length ?gs) vi w"
  have new: "?new = ?gs @ [\<lparr>group_name = n, group_weight = [vi \<mapsto> w]\<rparr>]"
    by (simp add: group_add_replace_def vertex_groups_new_def)
  have res: "vertex_groups (apply_weight obj vi n w) = ?gs @ [\<lparr>group_name = n, group_weight = [vi \<mapsto> w]\<rparr>]"
    using None new by (simp add: apply_weight_def)
  show ?thesis
  proof (cases "vertex_groups_get ?gs n'")
    case (Some k')
    from vertex_groups_get_Some [OF Some] have "k' < length ?gs" by simp
    with Some res show ?thesis
      by (simp add: weight_of_def vertex_groups_get_append nth_append)
  next
    case N: None
    show ?thesis
    proof (cases "n' = n")
      case True
      with assms have "vi' \<noteq> vi" by simp
      with N True res show ?thesis
        by (simp add: weight_of_def vertex_groups_get_append)
    next
      case False
      with N res show ?thesis
        by (simp add: weight_of_def vertex_groups_get_append)
    qed
  qed
next
  case (Some k)
  let ?gs = "vertex_groups obj"
  from vertex_groups_get_Some [OF Some] have k: "k < length ?gs" "group_name (?gs ! k) = n"
    by simp_all
  have res: "vertex_groups (apply_weight obj vi n w) = group_add_replace ?gs k vi w"
    using Some by (simp add: apply_weight_def)
  have get: "vertex_groups_get (group_add_replace ?gs k vi w) n' = vertex_groups_get ?gs n'"
    by (rule vertex_groups_get_names [OF names_group_add_replace])
  show ?thesis
  proof (cases "vertex_groups_get ?gs n'")
    case None
    with res get show ?thesis by (simp add: weight_of_def)
  next
    case S: (Some k')
    from vertex_groups_get_Some [OF S] have k': "k' < length ?gs" "group_name (?gs ! k') = n'"
      by simp_all
    show ?thesis
    proof (cases "k' = k")
      case True
      with k k' have "n' = n" by simp
      with assms have "vi' \<noteq> vi" by simp
      with S res get True k show ?thesis
        by (simp add: weight_of_def group_add_replace_def)
    next
      case False
      with S res get k k' show ?thesis
        by (simp add: weight_of_def group_add_replace_def)
    qed
  qed
qed

lemma weight_of_apply_weights_other:
  "(vi' \<noteq> vi \<or> n' \<notin> fst ` set ws) \<Longrightarrow>
   weight_of (apply_weights obj vi ws) n' vi' = weight_of obj n' vi'"
proof (induction ws arbitrary: obj)
  case Nil
  then show ?case by simp
next
  case (Cons p ws)
  obtain n w where p: "p = (n, w)" by (cases p) auto
  have "weight_of (apply_weights (apply_weight obj vi n w) vi ws) n' vi' =
        weight_of (apply_weight obj vi n w) n' vi'"
    using Cons.prems by (intro Cons.IH) auto
  also have "\<dots> = weight_of obj n' vi'"
    using Cons.prems p by (intro weight_of_apply_weight_other) auto
  finally show ?case by (simp add: p)
qed

lemma weight_of_apply_weights_same:
  "distinct (map fst ws) \<Longrightarrow> (n, w) \<in> set ws \<Longrightarrow>
   weight_of (apply_weights obj vi ws) n vi = Some w"
proof (induction ws arbitrary: obj)
  case Nil
  then show ?case by simp
next
  case (Cons p ws)
  obtain n0 w0 where p: "p = (n0, w0)" by (cases p) auto
  show ?case
  proof (cases "(n, w) = p")
    case True
    with Cons.prems p have "n \<notin> fst ` set ws" by auto
    then have "weight_of (apply_weights (apply_weight obj vi n w) vi ws) n vi =
               weight_of (apply_weight obj vi n w) n vi"
      by (intro weight_of_apply_weights_other) simp
    with True p show ?thesis by (simp add: weight_of_apply_weight_same)
  next
    case False
    with Cons.prems have "(n, w) \<in> set ws" "distinct (map fst ws)" by auto
    from Cons.IH [OF this(2) this(1)] p show ?thesis by simp
  qed
qed

text \<open>
  Claim C5. One pass of the body of the loop over \<^verbatim>\<open>weights.items()\<close> leaves the vertex
  with exactly the imported weight in the group of that name, whatever was there. It
  creates the group, at the end of the list, when no group has the name, and creates none
  otherwise. No other weight changes. After all the weights of a record have been applied
  (a dict has each key once), each of them is the vertex's weight in its group.
\<close>

theorem apply_weight_replace:
  "weight_of (apply_weight obj vi n w) n vi = Some w \<and>
   map group_name (vertex_groups (apply_weight obj vi n w)) =
     (if n \<in> group_name ` set (vertex_groups obj) then map group_name (vertex_groups obj)
      else map group_name (vertex_groups obj) @ [n]) \<and>
   (\<forall>n' vi'. n' \<noteq> n \<or> vi' \<noteq> vi \<longrightarrow>
      weight_of (apply_weight obj vi n w) n' vi' = weight_of obj n' vi') \<and>
   (\<forall>ws. distinct (map fst ws) \<and> (n, w) \<in> set ws \<longrightarrow>
      weight_of (apply_weights obj vi ws) n vi = Some w)"
  using weight_of_apply_weight_same [of obj vi n w] names_apply_weight [of obj vi n w]
    weight_of_apply_weight_other [of _ n _ vi obj w]
    weight_of_apply_weights_same [of _ n w obj vi]
  by blast

text \<open>
  Applying \<open>7/10\<close> where vertex 0 holds \<open>3/10\<close> in \<open>arm\<close> gives \<open>7/10\<close>, not 1, and
  leaves vertex 1 alone; a weight for the missing group \<open>hip\<close> creates the group.
\<close>

theorem apply_weight_replace_witness:
  "weight_of seam_obj ''arm'' 0 = Some (3 / 10) \<and>
   weight_of (apply_weight seam_obj 0 ''arm'' (7 / 10)) ''arm'' 0 = Some (7 / 10) \<and>
   weight_of (apply_weight seam_obj 0 ''arm'' (7 / 10)) ''arm'' (Suc 0) = Some 0 \<and>
   map group_name (vertex_groups (apply_weight seam_obj 0 ''arm'' (7 / 10))) = [''arm'', ''leg''] \<and>
   weight_of seam_obj ''hip'' 0 = None \<and>
   weight_of (apply_weight seam_obj 0 ''hip'' (1 / 4)) ''hip'' 0 = Some (1 / 4) \<and>
   map group_name (vertex_groups (apply_weight seam_obj 0 ''hip'' (1 / 4))) = [''arm'', ''leg'', ''hip''] \<and>
   weight_of (apply_weights seam_obj 0 [(''hip'', 1 / 4), (''arm'', 7 / 10)]) ''arm'' 0 = Some (7 / 10)"
proof -
  have a: "weight_of seam_obj ''arm'' 0 = Some (3 / 10)" "weight_of seam_obj ''hip'' 0 = None"
    "weight_of seam_obj ''arm'' (Suc 0) = Some 0"
    by (simp_all add: weight_of_def seam_obj_def)
  have n: "map group_name (vertex_groups seam_obj) = [''arm'', ''leg'']"
    by (simp add: seam_obj_def)
  have s: "group_name ` set (vertex_groups seam_obj) = {''arm'', ''leg''}"
    by (simp add: seam_obj_def)
  from apply_weight_replace [of seam_obj 0 "''arm''" "7 / 10"]
  have "\<forall>ws. distinct (map fst ws) \<and> (''arm'', 7 / 10) \<in> set ws \<longrightarrow>
          weight_of (apply_weights seam_obj 0 ws) ''arm'' 0 = Some (7 / 10)"
    by blast
  then have "distinct (map fst [(''hip'', 1 / 4 :: real), (''arm'', 7 / 10)]) \<and>
             (''arm'', 7 / 10) \<in> set [(''hip'', 1 / 4 :: real), (''arm'', 7 / 10)] \<longrightarrow>
             weight_of (apply_weights seam_obj 0 [(''hip'', 1 / 4), (''arm'', 7 / 10)]) ''arm'' 0 =
               Some (7 / 10)"
    by (rule spec)
  then have l: "weight_of (apply_weights seam_obj 0 [(''hip'', 1 / 4), (''arm'', 7 / 10)]) ''arm'' 0 =
               Some (7 / 10)"
    by (simp del: apply_weights.simps)
  from apply_weight_replace [of seam_obj 0 "''arm''" "7 / 10"]
    apply_weight_replace [of seam_obj 0 "''hip''" "1 / 4"] a n s l
  show ?thesis by (simp del: apply_weights.simps)
qed

section \<open>Failed loads, empty meshes and unknown modes\<close>

lemma import_vertex_other_mode:
  "mapping_mode \<noteq> ''POSITION'' \<Longrightarrow> mapping_mode \<noteq> ''UV'' \<Longrightarrow>
   import_vertex mapping_mode old_tree vertices_data obj vert = Inr obj"
  by (simp add: import_vertex_def)

lemma import_loop_other_mode:
  "mapping_mode \<noteq> ''POSITION'' \<Longrightarrow> mapping_mode \<noteq> ''UV'' \<Longrightarrow>
   import_loop mapping_mode old_tree vertices_data obj vs = (None, obj)"
  by (induction vs) (simp_all add: import_vertex_other_mode)

text \<open>
  Claim C6. An import whose file cannot be read or parsed, or whose dataset has no
  vertices, prints its failure message and leaves the active object as it was; an export
  of a mesh with no vertices prints its message and leaves every file as it was. With no
  path or no mesh the earlier guards answer, and nothing changes either.
\<close>

theorem abort_without_mutation:
  "(loaded = None \<or> (\<exists>d. loaded = Some d \<and> (doc_vertices d = None \<or> doc_vertices d = Some [])) \<longrightarrow>
      import_skin_weights filepath mapping_mode loaded ctx_object =
        (Printed (if filepath = [] then InvalidFilePath
                  else if (case ctx_object of None \<Rightarrow> True | Some obj \<Rightarrow> obj_type obj \<noteq> ''MESH'')
                    then NoMeshSelected
                  else if loaded = None then ImportFailed else NoValidVertexData),
         ctx_object)) \<and>
   ((case ctx_object of None \<Rightarrow> True | Some obj \<Rightarrow> vertices (obj_data obj) = []) \<longrightarrow>
      export_skin_weights dump filepath ctx_object fs =
        (Printed (if filepath = [] then InvalidFilePath
                  else if (case ctx_object of None \<Rightarrow> True | Some obj \<Rightarrow> obj_type obj \<noteq> ''MESH'')
                    then NoMeshSelected
                  else NoVerticesFound),
         fs))"
proof -
  have imp: "import_skin_weights filepath mapping_mode None ctx_object =
        (Printed (if filepath = [] then InvalidFilePath
                  else if (case ctx_object of None \<Rightarrow> True | Some obj \<Rightarrow> obj_type obj \<noteq> ''MESH'')
                    then NoMeshSelected
                  else ImportFailed), ctx_object)"
    by (simp add: import_skin_weights_def split: option.splits)
  have emp: "doc_vertices d = None \<or> doc_vertices d = Some [] \<Longrightarrow>
      import_skin_weights filepath mapping_mode (Some d) ctx_object =
        (Printed (if filepath = [] then InvalidFilePath
                  else if (case ctx_object of None \<Rightarrow> True | Some obj \<Rightarrow> obj_type obj \<noteq> ''MESH'')
                    then NoMeshSelected
                  else NoValidVertexData), ctx_object)" for d
    by (auto simp: import_skin_weights_def split: option.splits)
  have exp: "(case ctx_object of None \<Rightarrow> True | Some obj \<Rightarrow> vertices (obj_data obj) = []) \<Longrightarrow>
      export_skin_weights dump filepath ctx_object fs =
        (Printed (if filepath = [] then InvalidFilePath
                  else if (case ctx_object of None \<Rightarrow> True | Some obj \<Rightarrow> obj_type obj \<noteq> ''MESH'')
                    then NoMeshSelected
                  else NoVerticesFound), fs)"
    by (auto simp: export_skin_weights_def split: option.splits)
  from imp emp exp show ?thesis by auto
qed

text \<open>
  Claim C7. With a mapping mode that is neither \<open>POSITION\<close> nor \<open>UV\<close> the body of the
  loop passes every vertex by: no exception leaves the import, the active object with its
  groups and weights is unchanged, and on a loaded dataset that is not empty the import
  ends with its success message.
\<close>

theorem unknown_mode_skips:
  assumes "mapping_mode \<noteq> ''POSITION''" and "mapping_mode \<noteq> ''UV''"
  shows "snd (import_skin_weights filepath mapping_mode loaded ctx_object) = ctx_object \<and>
         (\<forall>e. fst (import_skin_weights filepath mapping_mode loaded ctx_object) \<noteq> Raised e) \<and>
         (\<forall>old_tree vertices_data obj vert.
            import_vertex mapping_mode old_tree vertices_data obj vert = Inr obj) \<and>
         (\<forall>obj d vs. filepath \<noteq> [] \<and> ctx_object = Some obj \<and> obj_type obj = ''MESH'' \<and>
            loaded = Some d \<and> doc_vertices d = Some vs \<and> vs \<noteq> [] \<longrightarrow>
            fst (import_skin_weights filepath mapping_mode loaded ctx_object) = Printed ImportSuccessful)"
  using assms
  by (auto simp: import_skin_weights_def import_loop_other_mode import_vertex_other_mode Let_def
      split: option.splits)

text \<open>
  A failed load, an empty and a missing \<open>vertices\<close> array, and the export of a mesh with
  no vertices.
\<close>

theorem abort_without_mutation_witness:
  "import_skin_weights ''w.json'' ''POSITION'' None (Some seam_obj) =
     (Printed ImportFailed, Some seam_obj) \<and>
   import_skin_weights ''w.json'' ''UV'' (Some \<lparr>doc_vertices = Some []\<rparr>) (Some seam_obj) =
     (Printed NoValidVertexData, Some seam_obj) \<and>
   import_skin_weights ''w.json'' ''UV'' (Some \<lparr>doc_vertices = None\<rparr>) (Some seam_obj) =
     (Printed NoValidVertexData, Some seam_obj) \<and>
   export_skin_weights brief_dump ''w.json'' (Some bare_obj) open_fs =
     (Printed NoVerticesFound, open_fs)"
proof -
  have t: "obj_type seam_obj = ''MESH''" "obj_type bare_obj = ''MESH''"
    "vertices (obj_data bare_obj) = []"
    by (simp_all add: seam_obj_def bare_obj_def)
  from abort_without_mutation
         [where loaded = None and filepath = "''w.json''" and mapping_mode = "''POSITION''"
            and ctx_object = "Some seam_obj"]
       abort_without_mutation
         [where loaded = "Some \<lparr>doc_vertices = Some []\<rparr>" and filepath = "''w.json''"
            and mapping_mode = "''UV''" and ctx_object = "Some seam_obj"]
       abort_without_mutation
         [where loaded = "Some \<lparr>doc_vertices = None\<rparr>" and filepath = "''w.json''"
            and mapping_mode = "''UV''" and ctx_object = "Some seam_obj"]
       abort_without_mutation
         [where filepath = "''w.json''" and ctx_object = "Some bare_obj" and dump = brief_dump
            and fs = open_fs]
       t
  show ?thesis by simp
qed

text \<open>
  The mode \<open>NEAREST\<close> on the example mesh.
\<close>

theorem unknown_mode_skips_witness:
  "''NEAREST'' \<noteq> ''POSITION'' \<and> ''NEAREST'' \<noteq> ''UV'' \<and>
   import_skin_weights ''w.json'' ''NEAREST'' (Some \<lparr>doc_vertices = Some corner_data\<rparr>)
     (Some seam_obj) = (Printed ImportSuccessful, Some seam_obj)"
proof -
  have h1: "''NEAREST'' \<noteq> ''POSITION''" and h2: "''NEAREST'' \<noteq> ''UV''"
    by simp_all
  have t: "obj_type seam_obj = ''MESH''" "corner_data \<noteq> []"
    by (simp_all add: seam_obj_def corner_data_def)
  from unknown_mode_skips [OF h1 h2, of "''w.json''" "Some \<lparr>doc_vertices = Some corner_data\<rparr>"
      "Some seam_obj"] t
  have "snd (import_skin_weights ''w.json'' ''NEAREST'' (Some \<lparr>doc_vertices = Some corner_data\<rparr>)
          (Some seam_obj)) = Some seam_obj"
    and "fst (import_skin_weights ''w.json'' ''NEAREST'' (Some \<lparr>doc_vertices = Some corner_data\<rparr>)
          (Some seam_obj)) = Printed ImportSuccessful"
    by simp_all
  then have "import_skin_weights ''w.json'' ''NEAREST'' (Some \<lparr>doc_vertices = Some corner_data\<rparr>)
     (Some seam_obj) = (Printed ImportSuccessful, Some seam_obj)"
    by (simp add: prod_eq_iff)
  with h1 h2 show ?thesis by blast
qed

section \<open>The import: the spatial index and the records with missing keys\<close>

lemma kd_scan_Some:
  "best \<noteq> None \<or> tree \<noteq> [] \<Longrightarrow> \<exists>m k. kd_scan q tree best = Some (m, k)"
proof (induction tree arbitrary: best)
  case Nil
  then show ?case by auto
next
  case (Cons p tree)
  obtain co i where p: "p = (co, i)" by (cases p) auto
  show ?case
  proof (cases best)
    case None
    with Cons.IH [of "Some (sq_dist q co, i)"] p show ?thesis by simp
  next
    case (Some b)
    obtain m0 k0 where "b = (m0, k0)" by (cases b) auto
    with Some Cons.IH [of "Some (sq_dist q co, i)"] Cons.IH [of "Some (m0, k0)"] p
    show ?thesis by simp
  qed
qed

lemma kd_scan_min:
  "kd_scan q tree best = Some (m, k) \<Longrightarrow>
   (best = Some (m, k) \<or> (\<exists>co. (co, k) \<in> set tree \<and> m = sq_dist q co)) \<and>
   (\<forall>p \<in> set tree. m \<le> sq_dist q (fst p)) \<and>
   (\<forall>m0 k0. best = Some (m0, k0) \<longrightarrow> m \<le> m0)"
proof (induction tree arbitrary: best)
  case Nil
  then show ?case by simp
next
  case (Cons p tree)
  obtain co i where p: "p = (co, i)" by (cases p) auto
  show ?case
  proof (cases best)
    case None
    with Cons.prems p have "kd_scan q tree (Some (sq_dist q co, i)) = Some (m, k)" by simp
    from Cons.IH [OF this] None p show ?thesis by auto
  next
    case (Some b)
    obtain m0 k0 where b: "b = (m0, k0)" by (cases b) auto
    show ?thesis
    proof (cases "sq_dist q co < m0")
      case True
      with Cons.prems p Some b have "kd_scan q tree (Some (sq_dist q co, i)) = Some (m, k)"
        by simp
      from Cons.IH [OF this] Some b p True show ?thesis by auto
    next
      case False
      with Cons.prems p Some b have "kd_scan q tree (Some (m0, k0)) = Some (m, k)"
        by simp
      from Cons.IH [OF this] Some b p False show ?thesis by auto
    qed
  qed
qed

lemma build_tree_ok:
  "list_all has_position vs \<Longrightarrow>
   build_tree t (enumerate n vs) = Inr (t @ map (\<lambda>iv. (position_of (snd iv), fst iv)) (enumerate n vs))"
proof (induction vs arbitrary: t n)
  case Nil
  then show ?case by simp
next
  case (Cons v vs)
  from Cons.prems obtain co where co: "rec_co v = Some co" "length co = 3"
    by (auto simp: has_position_def split: option.splits)
  from Cons.prems have "list_all has_position vs" by simp
  from Cons.IH [OF this, of "t @ [(co, n)]" "Suc n"] co show ?case
    by (simp add: kd_insert_def position_of_def)
qed

lemma kd_find_nearest:
  assumes "vs \<noteq> []"
  shows "\<exists>k < length vs.
           kd_find (map (\<lambda>iv. (position_of (snd iv), fst iv)) (enumerate 0 vs)) q = Some k \<and>
           (\<forall>j < length vs. sq_dist q (position_of (vs ! k)) \<le> sq_dist q (position_of (vs ! j)))"
proof -
  let ?tree = "map (\<lambda>iv. (position_of (snd iv), fst iv)) (enumerate 0 vs)"
  have "?tree = map (\<lambda>j. (position_of (vs ! j), j)) [0..<length vs]"
    by (rule nth_equalityI) (simp_all add: nth_enumerate_eq)
  then have mem: "p \<in> set ?tree \<longleftrightarrow> (\<exists>j < length vs. p = (position_of (vs ! j), j))" for p
    by auto
  from assms have "?tree \<noteq> []" by (cases vs) simp_all
  with kd_scan_Some [of None ?tree q] obtain m k where mk: "kd_scan q ?tree None = Some (m, k)"
    by blast
  from kd_scan_min [OF mk] obtain co where co: "(co, k) \<in> set ?tree" "m = sq_dist q co"
    and least: "\<forall>p \<in> set ?tree. m \<le> sq_dist q (fst p)"
    by auto
  from co(1) mem have k: "k < length vs" "co = position_of (vs ! k)" by auto
  have "\<forall>j < length vs. sq_dist q (position_of (vs ! k)) \<le> sq_dist q (position_of (vs ! j))"
  proof (intro allI impI)
    fix j assume "j < length vs"
    then have "(position_of (vs ! j), j) \<in> set ?tree" using mem by blast
    with least co(2) k(2) show "sq_dist q (position_of (vs ! k)) \<le> sq_dist q (position_of (vs ! j))"
      by force
  qed
  with k(1) mk show ?thesis by (simp add: kd_find_def)
qed

lemma py_getitem_nat: "k < length xs \<Longrightarrow> py_getitem xs (int k) = Inr (xs ! k)"
  by (simp add: py_getitem_def)

lemma apply_record_in_range:
  "k < length vertices_data \<Longrightarrow>
   apply_record vertices_data (int k) obj vert =
     Inr (apply_weights obj (vert_index vert)
            (case rec_weights (vertices_data ! k) of None \<Rightarrow> [] | Some ws \<Rightarrow> ws))"
  by (cases "rec_weights (vertices_data ! k)") (auto simp: apply_record_def py_getitem_nat Let_def)

lemma obj_data_apply_weight [simp]: "obj_data (apply_weight obj vi n w) = obj_data obj"
  by (simp add: apply_weight_def split: option.splits)

lemma obj_data_apply_weights [simp]: "obj_data (apply_weights obj vi ws) = obj_data obj"
  by (induction ws arbitrary: obj) auto

lemma get_uv_coords_cong: "obj_data obj' = obj_data obj \<Longrightarrow> get_uv_coords obj' vi = get_uv_coords obj vi"
  by (simp add: get_uv_coords_def cong: option.case_cong)

lemma uv_scan_map:
  "(\<And>v. source_uv (f v) = source_uv v) \<Longrightarrow>
   uv_scan t (enumerate n (map f vs)) md b = uv_scan t (enumerate n vs) md b"
  by (induction vs arbitrary: n md b) (simp_all add: Let_def)

lemma find_closest_uv_match_map:
  "(\<And>v. source_uv (f v) = source_uv v) \<Longrightarrow>
   find_closest_uv_match obj vert (map f vs) = find_closest_uv_match obj vert vs"
  by (simp add: find_closest_uv_match_def uv_scan_map cong: sum.case_cong)

lemma find_closest_uv_match_range:
  assumes "find_closest_uv_match obj vert vs = Inr k" and "k \<noteq> - 1"
  shows "\<exists>j < length vs. k = int j"
proof -
  from assms have ne: "vs \<noteq> []"
    by (auto simp: find_closest_uv_match_def)
  with assms(1) obtain r where r: "get_uv_coords obj (vert_index vert) = Inr r"
    and k: "k = uv_scan (target_uv_of r) (enumerate 0 vs) None (- 1)"
    by (auto simp: find_closest_uv_match_def split: sum.splits)
  from uv_scan_first_min [OF ne, of "target_uv_of r"] k show ?thesis
    by (auto simp: first_min_def)
qed

lemma apply_record_no_weights:
  "k < length vertices_data \<Longrightarrow>
   rec_weights (vertices_data ! k) = None \<or> rec_weights (vertices_data ! k) = Some [] \<Longrightarrow>
   apply_record vertices_data (int k) obj vert = Inr obj"
  by (auto simp: apply_record_in_range)

lemma uv_layer_ok_cong: "obj_data obj' = obj_data obj \<Longrightarrow> uv_layer_ok obj' = uv_layer_ok obj"
  by (simp add: uv_layer_ok_def cong: option.case_cong)

lemma import_vertex_uv_ok:
  assumes "uv_layer_ok obj" and "vertices_data \<noteq> []"
  shows "\<exists>obj'. import_vertex ''UV'' old_tree vertices_data obj vert = Inr obj' \<and>
                obj_data obj' = obj_data obj"
proof -
  from get_uv_coords_ok [OF assms(1)] obtain r where
    r: "get_uv_coords obj (vert_index vert) = Inr r" by blast
  from uv_scan_first_min [OF assms(2), of "target_uv_of r"] obtain k where
    k: "uv_scan (target_uv_of r) (enumerate 0 vertices_data) None (- 1) = int k"
       "k < length vertices_data"
    by (auto simp: first_min_def)
  have "find_closest_uv_match obj vert vertices_data = Inr (int k)"
    using assms(2) r k(1) by (simp add: find_closest_uv_match_def)
  then show ?thesis
    using k(2) by (simp add: import_vertex_def apply_record_in_range)
qed

lemma import_loop_uv_ok:
  "uv_layer_ok obj \<Longrightarrow> vertices_data \<noteq> [] \<Longrightarrow>
   \<exists>obj'. import_loop ''UV'' old_tree vertices_data obj vs = (None, obj')"
proof (induction vs arbitrary: obj)
  case Nil
  then show ?case by simp
next
  case (Cons v vs)
  from import_vertex_uv_ok [OF Cons.prems, of old_tree v] obtain obj1 where
    o: "import_vertex ''UV'' old_tree vertices_data obj v = Inr obj1" "obj_data obj1 = obj_data obj"
    by blast
  from uv_layer_ok_cong [OF o(2)] Cons.prems(1) have "uv_layer_ok obj1" by simp
  from Cons.IH [OF this Cons.prems(2)] obtain obj' where
    "import_loop ''UV'' old_tree vertices_data obj1 vs = (None, obj')"
    by blast
  then have "import_loop ''UV'' old_tree vertices_data obj (v # vs) = (None, obj')"
    by (simp only: import_loop.simps o(1) sum.case)
  then show ?case by blast
qed

lemma import_vertex_position_ok:
  assumes "vertices_data \<noteq> []"
  shows "\<exists>k < length vertices_data.
           kd_find (map (\<lambda>iv. (position_of (snd iv), fst iv)) (enumerate 0 vertices_data))
             (list_of_vec (vert_co vert)) = Some k \<and>
           import_vertex ''POSITION''
             (map (\<lambda>iv. (position_of (snd iv), fst iv)) (enumerate 0 vertices_data))
             vertices_data obj vert =
             Inr (apply_weights obj (vert_index vert)
                    (case rec_weights (vertices_data ! k) of None \<Rightarrow> [] | Some ws \<Rightarrow> ws))"
proof -
  from kd_find_nearest [OF assms, of "list_of_vec (vert_co vert)"] obtain k where
    k: "k < length vertices_data"
       "kd_find (map (\<lambda>iv. (position_of (snd iv), fst iv)) (enumerate 0 vertices_data))
          (list_of_vec (vert_co vert)) = Some k"
    by blast
  then show ?thesis
    by (auto simp: import_vertex_def apply_record_in_range)
qed

lemma import_loop_position_ok:
  "vertices_data \<noteq> [] \<Longrightarrow>
   \<exists>obj'. import_loop ''POSITION''
            (map (\<lambda>iv. (position_of (snd iv), fst iv)) (enumerate 0 vertices_data))
            vertices_data obj vs = (None, obj')"
proof (induction vs arbitrary: obj)
  case Nil
  then show ?case by simp
next
  case (Cons v vs)
  let ?tree = "map (\<lambda>iv. (position_of (snd iv), fst iv)) (enumerate 0 vertices_data)"
  from import_vertex_position_ok [OF Cons.prems, of v obj] obtain obj1 where
    o: "import_vertex ''POSITION'' ?tree vertices_data obj v = Inr obj1"
    by blast
  from Cons.IH [OF Cons.prems, of obj1] obtain obj' where
    "import_loop ''POSITION'' ?tree vertices_data obj1 vs = (None, obj')"
    by blast
  then have "import_loop ''POSITION'' ?tree vertices_data obj (v # vs) = (None, obj')"
    by (simp only: import_loop.simps o sum.case)
  then show ?case by blast
qed

text \<open>
  Claim C10. A record with no \<open>uv\<close> takes part in UV matching as if its UV were
  \<open>[0, 0]\<close>. When the matched record has no \<open>weights\<close>, or an empty one, the vertex
  is passed by and the object is unchanged, in either mode. Whatever keys \<open>uv\<close> and
  \<open>weights\<close> the records lack, the import ends with its success message: in UV mode
  when every loop has its UV, in position mode when every record has a position of three
  numbers.
\<close>

theorem import_tolerates_missing_keys:
  "find_closest_uv_match obj vert
     (map (\<lambda>v. v\<lparr>rec_uv := Some (case rec_uv v of None \<Rightarrow> [0, 0] | Some uv \<Rightarrow> uv)\<rparr>) vertices_data) =
     find_closest_uv_match obj vert vertices_data \<and>
   (\<forall>k. find_closest_uv_match obj vert vertices_data = Inr k \<and> k \<noteq> - 1 \<and>
        (rec_weights (vertices_data ! nat k) = None \<or> rec_weights (vertices_data ! nat k) = Some []) \<longrightarrow>
        import_vertex ''UV'' old_tree vertices_data obj vert = Inr obj) \<and>
   (\<forall>k. kd_find old_tree (list_of_vec (vert_co vert)) = Some k \<and> k < length vertices_data \<and>
        (rec_weights (vertices_data ! k) = None \<or> rec_weights (vertices_data ! k) = Some []) \<longrightarrow>
        import_vertex ''POSITION'' old_tree vertices_data obj vert = Inr obj) \<and>
   (filepath \<noteq> [] \<and> obj_type obj = ''MESH'' \<and> vertices_data \<noteq> [] \<and> uv_layer_ok obj \<longrightarrow>
      (\<exists>obj'. import_skin_weights filepath ''UV'' (Some \<lparr>doc_vertices = Some vertices_data\<rparr>) (Some obj) =
               (Printed ImportSuccessful, Some obj'))) \<and>
   (filepath \<noteq> [] \<and> obj_type obj = ''MESH'' \<and> vertices_data \<noteq> [] \<and>
    list_all has_position vertices_data \<longrightarrow>
      (\<exists>obj'. import_skin_weights filepath ''POSITION'' (Some \<lparr>doc_vertices = Some vertices_data\<rparr>)
                (Some obj) = (Printed ImportSuccessful, Some obj')))"
proof (intro conjI allI impI)
  show "find_closest_uv_match obj vert
     (map (\<lambda>v. v\<lparr>rec_uv := Some (case rec_uv v of None \<Rightarrow> [0, 0] | Some uv \<Rightarrow> uv)\<rparr>) vertices_data) =
     find_closest_uv_match obj vert vertices_data"
    by (rule find_closest_uv_match_map) (simp add: source_uv_def split: option.splits)
next
  fix k
  assume a: "find_closest_uv_match obj vert vertices_data = Inr k \<and> k \<noteq> - 1 \<and>
        (rec_weights (vertices_data ! nat k) = None \<or> rec_weights (vertices_data ! nat k) = Some [])"
  then obtain j where j: "j < length vertices_data" "k = int j"
    using find_closest_uv_match_range [of obj vert vertices_data k] by blast
  with a have "apply_record vertices_data (int j) obj vert = Inr obj"
    by (intro apply_record_no_weights) simp_all
  with a j show "import_vertex ''UV'' old_tree vertices_data obj vert = Inr obj"
    by (simp add: import_vertex_def)
next
  fix k
  assume a: "kd_find old_tree (list_of_vec (vert_co vert)) = Some k \<and> k < length vertices_data \<and>
        (rec_weights (vertices_data ! k) = None \<or> rec_weights (vertices_data ! k) = Some [])"
  then have "apply_record vertices_data (int k) obj vert = Inr obj"
    by (intro apply_record_no_weights) simp_all
  with a show "import_vertex ''POSITION'' old_tree vertices_data obj vert = Inr obj"
    by (simp add: import_vertex_def)
next
  assume a: "filepath \<noteq> [] \<and> obj_type obj = ''MESH'' \<and> vertices_data \<noteq> [] \<and> uv_layer_ok obj"
  then obtain obj' where
    "import_loop ''UV'' [] vertices_data obj (vertices (obj_data obj)) = (None, obj')"
    using import_loop_uv_ok [of obj vertices_data "[]" "vertices (obj_data obj)"] by blast
  with a have "import_skin_weights filepath ''UV'' (Some \<lparr>doc_vertices = Some vertices_data\<rparr>) (Some obj) =
               (Printed ImportSuccessful, Some obj')"
    by (simp add: import_skin_weights_def)
  then show "\<exists>obj'. import_skin_weights filepath ''UV'' (Some \<lparr>doc_vertices = Some vertices_data\<rparr>) (Some obj) =
               (Printed ImportSuccessful, Some obj')" by blast
next
  assume a: "filepath \<noteq> [] \<and> obj_type obj = ''MESH'' \<and> vertices_data \<noteq> [] \<and>
    list_all has_position vertices_data"
  let ?tree = "map (\<lambda>iv. (position_of (snd iv), fst iv)) (enumerate 0 vertices_data)"
  from a have t: "build_tree [] (enumerate 0 vertices_data) = Inr ?tree"
    using build_tree_ok [of vertices_data "[]" 0] by simp
  from a obtain obj' where
    "import_loop ''POSITION'' ?tree vertices_data obj (vertices (obj_data obj)) = (None, obj')"
    using import_loop_position_ok [of vertices_data obj "vertices (obj_data obj)"] by blast
  with a t have "import_skin_weights filepath ''POSITION'' (Some \<lparr>doc_vertices = Some vertices_data\<rparr>)
                (Some obj) = (Printed ImportSuccessful, Some obj')"
    by (simp add: import_skin_weights_def)
  then show "\<exists>obj'. import_skin_weights filepath ''POSITION'' (Some \<lparr>doc_vertices = Some vertices_data\<rparr>)
                (Some obj) = (Printed ImportSuccessful, Some obj')" by blast
qed

lemma sparse_match_uv:
  "find_closest_uv_match seam_obj seam_vert1 sparse_data = Inr 1"
  by (simp add: find_closest_uv_match_def seam_vert1_def seam_obj_uv1 sparse_data_def
      target_uv_of_def source_uv_def sq_dist_def)

lemma sparse_match_position:
  "kd_find [([0, 0, 0], 0), ([1, 0, 0], Suc 0), ([2, 0, 0], 2)] (list_of_vec (vert_co seam_vert1)) =
     Some 2"
  by (simp add: kd_find_def seam_vert1_def sq_dist_def)

text \<open>
  In the sparse dataset record 1 has neither \<open>uv\<close> nor \<open>weights\<close> and record 2 has
  empty weights: vertex 1 matches record 1 by UV and record 2 by position, and is passed
  by both times.
\<close>

theorem import_tolerates_missing_keys_witness:
  "find_closest_uv_match seam_obj seam_vert1 sparse_data = Inr 1 \<and>
   rec_uv (sparse_data ! 1) = None \<and> rec_weights (sparse_data ! 1) = None \<and>
   import_vertex ''UV'' [] sparse_data seam_obj seam_vert1 = Inr seam_obj \<and>
   kd_find [([0, 0, 0], 0), ([1, 0, 0], Suc 0), ([2, 0, 0], 2)] (list_of_vec (vert_co seam_vert1)) =
     Some 2 \<and>
   rec_weights (sparse_data ! 2) = Some [] \<and>
   import_vertex ''POSITION'' [([0, 0, 0], 0), ([1, 0, 0], Suc 0), ([2, 0, 0], 2)] sparse_data
     seam_obj seam_vert1 = Inr seam_obj \<and>
   uv_layer_ok seam_obj \<and> list_all has_position sparse_data \<and>
   (\<exists>obj'. import_skin_weights ''w.json'' ''UV'' (Some \<lparr>doc_vertices = Some sparse_data\<rparr>)
             (Some seam_obj) = (Printed ImportSuccessful, Some obj')) \<and>
   (\<exists>obj'. import_skin_weights ''w.json'' ''POSITION'' (Some \<lparr>doc_vertices = Some sparse_data\<rparr>)
             (Some seam_obj) = (Printed ImportSuccessful, Some obj'))"
proof -
  have s: "rec_uv (sparse_data ! 1) = None" "rec_weights (sparse_data ! 1) = None"
    "rec_weights (sparse_data ! 2) = Some []" "sparse_data \<noteq> []" "length sparse_data = 3"
    "list_all has_position sparse_data"
    by (simp_all add: sparse_data_def has_position_def)
  have o: "uv_layer_ok seam_obj" "obj_type seam_obj = ''MESH''"
    by (simp_all add: uv_layer_ok_def seam_obj_def)
  note t = import_tolerates_missing_keys
    [of seam_obj seam_vert1 sparse_data _ "''w.json''"]
  from t [of "[]"] sparse_match_uv s
  have uv: "import_vertex ''UV'' [] sparse_data seam_obj seam_vert1 = Inr seam_obj"
    by simp
  from t [of "[([0, 0, 0], 0), ([1, 0, 0], Suc 0), ([2, 0, 0], 2)]"] sparse_match_position s
  have pos: "import_vertex ''POSITION'' [([0, 0, 0], 0), ([1, 0, 0], Suc 0), ([2, 0, 0], 2)]
               sparse_data seam_obj seam_vert1 = Inr seam_obj"
    by simp
  from t [of "[]"] s o
  have whole: "(\<exists>obj'. import_skin_weights ''w.json'' ''UV'' (Some \<lparr>doc_vertices = Some sparse_data\<rparr>)
             (Some seam_obj) = (Printed ImportSuccessful, Some obj'))"
    "(\<exists>obj'. import_skin_weights ''w.json'' ''POSITION'' (Some \<lparr>doc_vertices = Some sparse_data\<rparr>)
             (Some seam_obj) = (Printed ImportSuccessful, Some obj'))"
    by simp_all
  from sparse_match_uv sparse_match_position s o uv pos whole show ?thesis
    by blast
qed

section \<open>The round trip: export, then import by position\<close>





















end
